theory Spec2Isabelle
  imports Complex_Main
begin

section \<open>JavaScript numbers: IEEE 754 binary64\<close>

text \<open>
  The TypeScript type \<open>number\<close> is an IEEE 754 double.  A value is not-a-number, an
  infinity with its sign, or a finite number \<open>Finite s m e\<close> that denotes
  \<open>(-1)\<^sup>s * m * 2\<^sup>e\<close> (\<open>s = True\<close> is the negative sign).  The doubles proper are the
  finite numbers with \<open>m < 2\<^sup>5\<^sup>3\<close> and \<open>-1074 \<le> e \<le> 971\<close>; the functions below are
  defined, by value, on every dyadic number, and the product always rounds into the
  doubles.
\<close>

datatype js_number = NaN | Infinity bool | Finite bool nat int

definition is_double :: "js_number \<Rightarrow> bool" where
  "is_double x =
     (case x of Finite s m e \<Rightarrow> m < 2 ^ 53 \<and> - 1074 \<le> e \<and> e \<le> 971 | _ \<Rightarrow> True)"

text \<open>A numeric literal of the source, such as \<open>150\<close> or \<open>1_000_000\<close>.\<close>

definition lit :: "nat \<Rightarrow> js_number" where
  "lit n = Finite False n 0"

text \<open>
  Two finite numbers are compared after scaling both mantissas to the smaller of the two
  exponents, where they are integers.
\<close>

definition scaled :: "bool \<Rightarrow> nat \<Rightarrow> int \<Rightarrow> int \<Rightarrow> int" where
  "scaled s m e k = (if s then - int m else int m) * 2 ^ nat (e - k)"

text \<open>\<open>a <= b\<close>: false as soon as an operand is NaN.\<close>

fun js_le :: "js_number \<Rightarrow> js_number \<Rightarrow> bool" where
  "js_le NaN b = False"
| "js_le a NaN = False"
| "js_le (Infinity s) (Infinity t) = (s \<or> \<not> t)"
| "js_le (Infinity s) (Finite t n f) = s"
| "js_le (Finite s m e) (Infinity t) = (\<not> t)"
| "js_le (Finite s m e) (Finite t n f) =
     (scaled s m e (min e f) \<le> scaled t n f (min e f))"

text \<open>\<open>a >= b\<close>: false as soon as an operand is NaN.\<close>

definition js_ge :: "js_number \<Rightarrow> js_number \<Rightarrow> bool" where
  "js_ge a b = js_le b a"

text \<open>The global \<open>isFinite\<close>: false on NaN and on both infinities.\<close>

fun isFinite :: "js_number \<Rightarrow> bool" where
  "isFinite (Finite s m e) = True"
| "isFinite a = False"

text \<open>The number of binary digits of a mantissa.\<close>

fun bit_length :: "nat \<Rightarrow> nat" where
  "bit_length n = (if n = 0 then 0 else Suc (bit_length (n div 2)))"

declare bit_length.simps [simp del]

text \<open>
  \<open>round64 s m e\<close> rounds the exact value \<open>(-1)\<^sup>s * m * 2\<^sup>e\<close> to the nearest double, ties
  to the even mantissa: the result keeps 53 binary digits, or fewer at the smallest
  exponent \<open>-1074\<close> (gradual underflow), and is an infinity when the rounded exponent
  exceeds \<open>971\<close>.
\<close>

definition round64 :: "bool \<Rightarrow> nat \<Rightarrow> int \<Rightarrow> js_number" where
  "round64 s m e =
     (if m = 0 then Finite s 0 (- 1074)
      else
        let e' = max (e + int (bit_length m) - 53) (- 1074) in
        if e' \<le> e then
          (if 971 < e' then Infinity s else Finite s (m * 2 ^ nat (e - e')) e')
        else
          let k = nat (e' - e);
              q = m div 2 ^ k;
              r = m mod 2 ^ k;
              half = 2 ^ (k - 1);
              q' = (if half < r \<or> (r = half \<and> odd q) then q + 1 else q);
              e'' = (if q' = 2 ^ 53 then e' + 1 else e');
              m'' = (if q' = 2 ^ 53 then 2 ^ 52 else q')
          in if 971 < e'' then Infinity s else Finite s m'' e'')"

text \<open>
  \<open>a * b\<close>: NaN is absorbing, an infinity times zero is NaN, the sign of every other
  product is the exclusive or of the signs, and a finite product is rounded.
\<close>

fun js_mul :: "js_number \<Rightarrow> js_number \<Rightarrow> js_number" where
  "js_mul NaN b = NaN"
| "js_mul a NaN = NaN"
| "js_mul (Infinity s) (Infinity t) = Infinity (s \<noteq> t)"
| "js_mul (Infinity s) (Finite t n f) = (if n = 0 then NaN else Infinity (s \<noteq> t))"
| "js_mul (Finite s m e) (Infinity t) = (if m = 0 then NaN else Infinity (s \<noteq> t))"
| "js_mul (Finite s m e) (Finite t n f) = round64 (s \<noteq> t) (m * n) (e + f)"

section \<open>The package sorter\<close>

datatype PackageType = STANDARD | SPECIAL | REJECTED

text \<open>
  \<open>throw new Error(message)\<close>: the error value carries its message.  The source has two
  messages; the specification calls the first kind \<open>InvalidRange\<close> and the second
  \<open>NotFinite\<close>.
\<close>

datatype js_error = Error string

definition InvalidRange :: js_error where
  "InvalidRange = Error ''Package dimensions and mass must be positive values greater than 0''"

definition NotFinite :: js_error where
  "NotFinite = Error ''Package dimensions and mass must be finite numbers''"

record PackageInput =
  width :: js_number
  height :: js_number
  length_pkg :: js_number
  mass :: js_number

record PackageResult = PackageInput +
  type_pkg :: PackageType
  volume :: js_number
  isBulky_flag :: bool
  isHeavy_flag :: bool
  reason :: string

definition isBulky :: "js_number \<Rightarrow> js_number \<Rightarrow> js_number \<Rightarrow> bool" where
  "isBulky w h l =
     (let volume = js_mul (js_mul w h) l;
          hasLargeDimension = (js_ge w (lit 150) \<or> js_ge h (lit 150) \<or> js_ge l (lit 150))
      in js_ge volume (lit 1000000) \<or> hasLargeDimension)"

definition isHeavy :: "js_number \<Rightarrow> bool" where
  "isHeavy m = js_ge m (lit 20)"

definition validateInputs ::
  "js_number \<Rightarrow> js_number \<Rightarrow> js_number \<Rightarrow> js_number \<Rightarrow> js_error + unit" where
  "validateInputs w h l m =
     (if js_le w (lit 0) \<or> js_le h (lit 0) \<or> js_le l (lit 0) \<or> js_le m (lit 0)
      then Inl InvalidRange
      else if \<not> isFinite w \<or> \<not> isFinite h \<or> \<not> isFinite l \<or> \<not> isFinite m
      then Inl NotFinite
      else Inr ())"

definition sort_pkg ::
  "js_number \<Rightarrow> js_number \<Rightarrow> js_number \<Rightarrow> js_number \<Rightarrow> js_error + PackageType" where
  "sort_pkg w h l m =
     (case validateInputs w h l m of
        Inl err \<Rightarrow> Inl err
      | Inr u \<Rightarrow>
          let bulky = isBulky w h l;
              heavy = isHeavy m
          in if bulky \<and> heavy then Inr REJECTED
             else if bulky \<or> heavy then Inr SPECIAL
             else Inr STANDARD)"

text \<open>
  The three explanations of a bulky package hold the characters U+2265 (greater than or
  equal) and U+00B3 (superscript three); a string here is a list of bytes, so they stand
  as the UTF-8 bytes of the source file.
\<close>

definition ge_sign :: string where
  "ge_sign = [CHR 0xE2, CHR 0x89, CHR 0xA5]"

definition cubed :: string where
  "cubed = [CHR 0xC2, CHR 0xB3]"

definition sortWithDetails ::
  "js_number \<Rightarrow> js_number \<Rightarrow> js_number \<Rightarrow> js_number \<Rightarrow> js_error + PackageResult" where
  "sortWithDetails w h l m =
     (case validateInputs w h l m of
        Inl err \<Rightarrow> Inl err
      | Inr u \<Rightarrow>
          let vol = js_mul (js_mul w h) l;
              bulky = isBulky w h l;
              heavy = isHeavy m
          in case sort_pkg w h l m of
               Inl err \<Rightarrow> Inl err
             | Inr ty \<Rightarrow>
                 let rsn =
                   (if ty = REJECTED then ''Package is both bulky and heavy''
                    else if ty = SPECIAL then
                      (if bulky \<and> \<not> heavy then
                         (let volumeExceeded = js_ge vol (lit 1000000);
                              dimensionExceeded =
                                (js_ge w (lit 150) \<or> js_ge h (lit 150) \<or> js_ge l (lit 150))
                          in if volumeExceeded \<and> dimensionExceeded then
                               ''Package is bulky (volume '' @ ge_sign @ '' 1M cm'' @ cubed @
                               '' and dimension '' @ ge_sign @ '' 150 cm)''
                             else if volumeExceeded then
                               ''Package is bulky (volume '' @ ge_sign @ '' 1,000,000 cm'' @
                               cubed @ '')''
                             else
                               ''Package is bulky (dimension '' @ ge_sign @ '' 150 cm)'')
                       else if heavy \<and> \<not> bulky then
                         ''Package is heavy (mass '' @ ge_sign @ '' 20 kg)''
                       else [])
                    else ''Package meets standard criteria'')
                 in Inr \<lparr>width = w, height = h, length_pkg = l, mass = m, type_pkg = ty,
                          volume = vol, isBulky_flag = bulky, isHeavy_flag = heavy,
                          reason = rsn\<rparr>)"

section \<open>What the claims speak of\<close>

text \<open>
  The real number that a finite double denotes, and the four ways in which a claim
  compares an input with a threshold.  NaN stands in no relation to any number; the
  infinities lie outside every real bound.
\<close>

definition valof :: "bool \<Rightarrow> nat \<Rightarrow> int \<Rightarrow> real" where
  "valof s m e = (if s then - real m else real m) * 2 powi e"

fun at_least :: "js_number \<Rightarrow> real \<Rightarrow> bool" where
  "at_least NaN c = False"
| "at_least (Infinity s) c = (\<not> s)"
| "at_least (Finite s m e) c = (c \<le> valof s m e)"

fun at_most :: "js_number \<Rightarrow> real \<Rightarrow> bool" where
  "at_most NaN c = False"
| "at_most (Infinity s) c = s"
| "at_most (Finite s m e) c = (valof s m e \<le> c)"

fun above :: "js_number \<Rightarrow> real \<Rightarrow> bool" where
  "above NaN c = False"
| "above (Infinity s) c = (\<not> s)"
| "above (Finite s m e) c = (c < valof s m e)"

fun below :: "js_number \<Rightarrow> real \<Rightarrow> bool" where
  "below NaN c = False"
| "below (Infinity s) c = s"
| "below (Finite s m e) c = (valof s m e < c)"

fun equals :: "js_number \<Rightarrow> real \<Rightarrow> bool" where
  "equals (Finite s m e) c = (valof s m e = c)"
| "equals a c = False"

text \<open>Valid input: all four values finite and strictly greater than 0.\<close>

definition valid_input ::
  "js_number \<Rightarrow> js_number \<Rightarrow> js_number \<Rightarrow> js_number \<Rightarrow> bool" where
  "valid_input w h l m =
     (isFinite w \<and> above w 0 \<and> isFinite h \<and> above h 0 \<and>
      isFinite l \<and> above l 0 \<and> isFinite m \<and> above m 0)"

text \<open>The six explanations that \<open>sortWithDetails\<close> can give.\<close>

definition reason_both :: string where
  "reason_both = ''Package is both bulky and heavy''"

definition reason_volume_and_dimension :: string where
  "reason_volume_and_dimension =
     ''Package is bulky (volume '' @ ge_sign @ '' 1M cm'' @ cubed @ '' and dimension '' @
     ge_sign @ '' 150 cm)''"

definition reason_volume :: string where
  "reason_volume =
     ''Package is bulky (volume '' @ ge_sign @ '' 1,000,000 cm'' @ cubed @ '')''"

definition reason_dimension :: string where
  "reason_dimension = ''Package is bulky (dimension '' @ ge_sign @ '' 150 cm)''"

definition reason_mass :: string where
  "reason_mass = ''Package is heavy (mass '' @ ge_sign @ '' 20 kg)''"

definition reason_standard :: string where
  "reason_standard = ''Package meets standard criteria''"

text \<open>\<open>(a, b, c)\<close> holds the dimensions \<open>(w, h, l)\<close> in some order.\<close>

definition rearranged ::
  "js_number \<times> js_number \<times> js_number \<Rightarrow> js_number \<times> js_number \<times> js_number \<Rightarrow> bool" where
  "rearranged p q =
     (case q of (w, h, l) \<Rightarrow>
        p = (w, h, l) \<or> p = (h, w, l) \<or> p = (l, h, w) \<or>
        p = (w, l, h) \<or> p = (h, l, w) \<or> p = (l, w, h))"

text \<open>The input of the test suite's scenarios that is not a whole number: \<open>99.99\<close>.\<close>

definition d99_99 :: js_number where
  "d99_99 = Finite False 7036170730324623 (- 46)"

text \<open>The double of a whole number below \<open>2\<^sup>5\<^sup>3\<close>, its mantissa normalised to 53 digits.\<close>

definition whole :: "nat \<Rightarrow> js_number" where
  "whole n = Finite False (n * 2 ^ (53 - bit_length n)) (int (bit_length n) - 53)"

section \<open>Comparison in terms of the values\<close>

lemma scaled_valof:
  assumes "k \<le> e"
  shows "real_of_int (scaled s m e k) = valof s m e * 2 powi (- k)"
proof -
  have "(2::real) powi e * 2 powi (- k) = 2 powi (e - k)"
    by (simp add: power_int_add [symmetric])
  also have "\<dots> = 2 ^ nat (e - k)"
    using assms by (simp add: power_int_def)
  finally have "(2::real) ^ nat (e - k) = 2 powi e * 2 powi (- k)" by simp
  then show ?thesis
    by (simp add: scaled_def valof_def)
qed

lemma js_le_Finite_valof:
  "js_le (Finite s m e) (Finite t n f) \<longleftrightarrow> valof s m e \<le> valof t n f"
proof -
  let ?k = "min e f"
  have pos: "(0::real) < 2 powi (- ?k)" by simp
  have "js_le (Finite s m e) (Finite t n f) \<longleftrightarrow>
        real_of_int (scaled s m e ?k) \<le> real_of_int (scaled t n f ?k)"
    by simp
  also have "\<dots> \<longleftrightarrow> valof s m e * 2 powi (- ?k) \<le> valof t n f * 2 powi (- ?k)"
    by (simp add: scaled_valof)
  also have "\<dots> \<longleftrightarrow> valof s m e \<le> valof t n f"
    using pos by (rule mult_le_cancel_right_pos)
  finally show ?thesis .
qed

lemma valof_lit [simp]: "valof False n 0 = real n"
  by (simp add: valof_def)

lemma js_ge_lit: "js_ge x (lit n) \<longleftrightarrow> at_least x (real n)"
proof (cases x)
  case (Finite s m e)
  show ?thesis
    unfolding Finite js_ge_def lit_def at_least.simps js_le_Finite_valof by simp
qed (simp_all add: js_ge_def lit_def)

lemma js_le_lit: "js_le x (lit n) \<longleftrightarrow> at_most x (real n)"
proof (cases x)
  case (Finite s m e)
  show ?thesis
    unfolding Finite lit_def at_most.simps js_le_Finite_valof by simp
qed (simp_all add: lit_def)

lemma equals_at_least: "equals x c \<Longrightarrow> at_least x c"
  by (cases x) simp_all

lemma below_not_at_least: "below x c \<Longrightarrow> \<not> at_least x c"
  by (cases x) simp_all

lemma above_iff_not_at_most: "isFinite x \<Longrightarrow> above x c \<longleftrightarrow> \<not> at_most x c"
  by (cases x) auto

lemma isFinite_lit [simp]: "isFinite (lit n)"
  by (simp add: lit_def)

section \<open>Rounding\<close>

lemma bit_length_0 [simp]: "bit_length 0 = 0"
  by (simp add: bit_length.simps)

lemma bit_length_pos: "0 < n \<Longrightarrow> bit_length n = Suc (bit_length (n div 2))"
  by (subst bit_length.simps) simp

lemma bit_length_le_iff: "bit_length n \<le> k \<longleftrightarrow> n < 2 ^ k"
proof (induction n arbitrary: k rule: bit_length.induct)
  case (1 n)
  show ?case
  proof (cases "n = 0")
    case True
    then show ?thesis by simp
  next
    case False
    then have bl: "bit_length n = Suc (bit_length (n div 2))"
      by (simp add: bit_length_pos)
    show ?thesis
    proof (cases k)
      case 0
      with False bl show ?thesis by simp
    next
      case (Suc j)
      have "bit_length n \<le> k \<longleftrightarrow> bit_length (n div 2) \<le> j"
        by (simp add: bl Suc)
      also have "\<dots> \<longleftrightarrow> n div 2 < 2 ^ j"
        using False by (rule "1.IH")
      also have "\<dots> \<longleftrightarrow> n < 2 ^ k"
        by (auto simp: Suc)
      finally show ?thesis .
    qed
  qed
qed

lemma bit_length_double: "0 < n \<Longrightarrow> bit_length (n * 2) = Suc (bit_length n)"
  by (subst bit_length.simps) simp

lemma bit_length_mult_pow2: "0 < n \<Longrightarrow> bit_length (n * 2 ^ j) = bit_length n + j"
proof (induction j)
  case 0
  then show ?case by simp
next
  case (Suc j)
  have "n * 2 ^ Suc j = (n * 2 ^ j) * 2"
    by simp
  then have "bit_length (n * 2 ^ Suc j) = bit_length ((n * 2 ^ j) * 2)"
    by (rule arg_cong)
  also have "\<dots> = Suc (bit_length (n * 2 ^ j))"
    using Suc.prems by (intro bit_length_double) simp
  finally show ?case
    using Suc by simp
qed

lemma less_pow2_bit_length: "n < 2 ^ bit_length n"
  using bit_length_le_iff [of n "bit_length n"] by simp

text \<open>
  A value whose mantissa fits into 53 binary digits, and whose normalised exponent is in
  range, rounds to itself, with the mantissa normalised to 53 digits, whatever power of
  two its mantissa has been scaled by.
\<close>

lemma round64_exact:
  assumes m: "0 < m" and B: "bit_length m \<le> 53"
    and lo: "- 1074 \<le> e + int (bit_length m) - 53" and hi: "e + int (bit_length m) - 53 \<le> 971"
  shows "round64 s (m * 2 ^ j) (e - int j) =
         Finite s (m * 2 ^ (53 - bit_length m)) (e + int (bit_length m) - 53)"
proof -
  let ?B = "bit_length m"
  let ?e' = "e + int ?B - 53"
  have M: "m * 2 ^ j \<noteq> 0" using m by simp
  have bl: "bit_length (m * 2 ^ j) = ?B + j"
    using m by (rule bit_length_mult_pow2)
  have e': "max (e - int j + int (bit_length (m * 2 ^ j)) - 53) (- 1074) = ?e'"
    using lo by (simp add: bl)
  show ?thesis
  proof (cases "?e' \<le> e - int j")
    case True
    then have "j + nat (e - int j - ?e') = 53 - ?B"
      using B by auto
    then have "m * 2 ^ j * 2 ^ nat (e - int j - ?e') = m * 2 ^ (53 - ?B)"
      by (simp only: mult.assoc power_add [symmetric])
    with True hi M show ?thesis
      unfolding round64_def Let_def e' by simp
  next
    case False
    define k where "k = nat (?e' - (e - int j))"
    from False B have k: "0 < k" "j = (53 - ?B) + k"
      by (auto simp: k_def)
    have split: "m * 2 ^ j = (m * 2 ^ (53 - ?B)) * 2 ^ k"
      by (subst k(2)) (simp only: mult.assoc power_add)
    have q: "m * 2 ^ j div 2 ^ k = m * 2 ^ (53 - ?B)"
      unfolding split by simp
    have r: "m * 2 ^ j mod 2 ^ k = 0"
      unfolding split by simp
    have half: "(0::nat) < 2 ^ (k - 1)" by simp
    have "bit_length (m * 2 ^ (53 - ?B)) \<le> 53"
      using m B by (simp add: bit_length_mult_pow2)
    then have lt: "m * 2 ^ (53 - ?B) < 2 ^ 53"
      by (simp add: bit_length_le_iff)
    from False hi M lt half show ?thesis
      unfolding round64_def Let_def e' k_def [symmetric] q r by simp
  qed
qed


lemma round_step:
  fixes m k :: nat
  assumes "0 < k"
  defines "q \<equiv> m div 2 ^ k" and "r \<equiv> m mod 2 ^ k"
  defines "q' \<equiv> (if 2 ^ (k - 1) < r \<or> (r = 2 ^ (k - 1) \<and> odd q) then q + 1 else q)"
  shows "\<bar>int (q' * 2 ^ k) - int m\<bar> \<le> 2 ^ (k - 1)"
proof -
  have m: "m = q * 2 ^ k + r"
    unfolding q_def r_def by (rule div_mult_mod_eq [symmetric])
  have r: "r < 2 ^ k"
    by (simp add: r_def)
  have k2: "(2::nat) ^ k = 2 * 2 ^ (k - 1)"
    using assms(1) by (cases k) simp_all
  show ?thesis
  proof (cases "q' = q")
    case True
    then have "r \<le> 2 ^ (k - 1)"
      by (auto simp: q'_def split: if_splits)
    with True show ?thesis
      by (simp add: m)
  next
    case False
    then have q': "q' = q + 1" and "2 ^ (k - 1) \<le> r"
      by (auto simp: q'_def split: if_splits)
    with r k2 have "2 ^ k - r \<le> 2 ^ (k - 1)" by simp
    moreover have "int (q' * 2 ^ k) - int m = int (2 ^ k - r)"
      using r by (simp add: q' m algebra_simps of_nat_diff)
    ultimately show ?thesis by simp
  qed
qed


text \<open>
  The rounded value is the exact one when no digit is dropped, and otherwise lies within
  half a unit of the last kept digit of it.
\<close>

lemma abs_valof_diff:
  "\<bar>valof s a e - valof s b e\<bar> = \<bar>real_of_int (int a - int b)\<bar> * 2 powi e"
proof -
  have "valof s a e - valof s b e = (if s then - 1 else 1) * real_of_int (int a - int b) * 2 powi e"
    by (simp add: valof_def algebra_simps)
  then show ?thesis
    by (simp add: abs_mult)
qed

lemma valof_shift: "valof s (a * 2 ^ j) e = valof s a (e + int j)"
  by (simp add: valof_def power_int_add)

lemma round64_nearest:
  assumes "round64 s m e = Finite t n f"
  shows "t = s \<and>
         \<bar>valof s n f - valof s m e\<bar> \<le> 2 powi (max (e + int (bit_length m) - 53) (- 1074)) / 2"
proof (cases "m = 0")
  case True
  with assms show ?thesis
    by (auto simp: round64_def valof_def)
next
  case False
  define e' where "e' = max (e + int (bit_length m) - 53) (- 1074)"
  show ?thesis
  proof (cases "e' \<le> e")
    case True
    with False assms have res: "t = s" "n = m * 2 ^ nat (e - e')" "f = e'"
      unfolding round64_def Let_def e'_def [symmetric] by (auto split: if_splits)
    have "valof s n f = valof s m e"
      unfolding res valof_shift using True by simp
    with res(1) show ?thesis
      by simp
  next
    case gt: False
    define k where "k = nat (e' - e)"
    define q where "q = m div 2 ^ k"
    define r where "r = m mod 2 ^ k"
    define q' where "q' = (if 2 ^ (k - 1) < r \<or> (r = 2 ^ (k - 1) \<and> odd q) then q + 1 else q)"
    from gt have k: "0 < k" "e' = e + int k"
      by (simp_all add: k_def)
    from False gt assms have res: "t = s"
      "n = (if q' = 2 ^ 53 then 2 ^ 52 else q')" "f = (if q' = 2 ^ 53 then e' + 1 else e')"
      unfolding round64_def Let_def e'_def [symmetric] k_def [symmetric] q_def [symmetric]
        r_def [symmetric] q'_def [symmetric]
      by (auto split: if_splits)
    have "valof s n f = valof s q' e'"
    proof (cases "q' = 2 ^ 53")
      case True
      have "valof s (2 ^ 52) (e' + 1) = valof s (1 * 2 ^ 52) (e' + 1)" by simp
      also have "\<dots> = valof s 1 (e' + 1 + int 52)" by (rule valof_shift)
      also have "\<dots> = valof s 1 (e' + int 53)" by (simp add: add.commute)
      also have "\<dots> = valof s (1 * 2 ^ 53) e'" by (rule valof_shift [symmetric])
      finally show ?thesis using True res by simp
    next
      case False
      with res show ?thesis by simp
    qed
    also have "\<dots> = valof s (q' * 2 ^ k) e"
      unfolding k(2) by (rule valof_shift [symmetric])
    finally have "\<bar>valof s n f - valof s m e\<bar> =
        \<bar>real_of_int (int (q' * 2 ^ k) - int m)\<bar> * 2 powi e"
      by (simp only: abs_valof_diff)
    also have "\<bar>int (q' * 2 ^ k) - int m\<bar> \<le> 2 ^ (k - 1)"
      unfolding q'_def q_def r_def using k(1) by (rule round_step)
    then have "\<bar>real_of_int (int (q' * 2 ^ k) - int m)\<bar> \<le> 2 ^ (k - 1)"
      by (metis of_int_abs of_int_le_iff of_int_numeral of_int_power)
    then have "\<bar>real_of_int (int (q' * 2 ^ k) - int m)\<bar> * 2 powi e \<le> 2 ^ (k - 1) * 2 powi e"
      by (intro mult_right_mono) simp_all
    also have "(2::real) ^ (k - 1) * 2 powi e = 2 powi (e + int (k - 1))"
      by (simp add: power_int_add)
    also have "e + int (k - 1) = e' - 1"
      using k by simp
    also have "(2::real) powi (e' - 1) = 2 powi e' / 2"
      by (simp add: power_int_diff)
    finally show ?thesis
      using res(1) by (simp add: e'_def)
  qed
qed

text \<open>Every product is a double.\<close>

lemma round64_is_double: "is_double (round64 s m e)"
proof (cases "m = 0")
  case True
  then show ?thesis by (simp add: round64_def is_double_def)
next
  case False
  define B where "B = bit_length m"
  define e' where "e' = max (e + int B - 53) (- 1074)"
  have e'1: "- 1074 \<le> e'" and e'2: "e + int B - 53 \<le> e'"
    by (simp_all add: e'_def)
  have mB: "m < 2 ^ B"
    unfolding B_def by (rule less_pow2_bit_length)
  show ?thesis
  proof (cases "e' \<le> e")
    case True
    have "bit_length (m * 2 ^ nat (e - e')) \<le> 53"
      using False e'2 True by (simp add: bit_length_mult_pow2 B_def)
    then have "m * 2 ^ nat (e - e') < 2 ^ 53"
      by (simp only: bit_length_le_iff)
    with True False e'1 show ?thesis
      unfolding round64_def Let_def B_def [symmetric] e'_def [symmetric]
      by (simp add: is_double_def)
  next
    case gt: False
    define k where "k = nat (e' - e)"
    define q where "q = m div 2 ^ k"
    have "B \<le> 53 + k"
      using e'2 gt by (simp add: k_def)
    then have "(2::nat) ^ B \<le> 2 ^ (53 + k)"
      by (intro power_increasing) simp_all
    with mB have "m < 2 ^ 53 * 2 ^ k"
      by (simp add: power_add)
    then have q: "q < 2 ^ 53"
      unfolding q_def by (simp add: less_mult_imp_div_less)
    have "is_double (let r = m mod 2 ^ k;
              half = 2 ^ (k - 1);
              q' = (if half < r \<or> (r = half \<and> odd q) then q + 1 else q);
              e'' = (if q' = 2 ^ 53 then e' + 1 else e');
              m'' = (if q' = 2 ^ 53 then 2 ^ 52 else q')
          in if 971 < e'' then Infinity s else Finite s m'' e'')"
      using q e'1 by (auto simp: Let_def is_double_def)
    with False gt show ?thesis
      unfolding round64_def Let_def B_def [symmetric] e'_def [symmetric]
        k_def [symmetric] q_def [symmetric]
      by (simp add: Let_def)
  qed
qed

lemma js_mul_is_double: "is_double (js_mul a b)"
  by (cases a; cases b) (simp_all add: round64_is_double, simp_all add: is_double_def)

lemma round64_whole:
  assumes "0 < n" "n < 2 ^ 53"
  shows "round64 False (n * 2 ^ j) (- int j) = whole n"
proof -
  from assms(2) have "bit_length n \<le> 53"
    by (simp add: bit_length_le_iff)
  with assms(1) show ?thesis
    using round64_exact [of n 0 False j] by (simp add: whole_def)
qed

lemma equals_whole:
  assumes "n < 2 ^ 53"
  shows "equals (whole n) (real n)"
proof -
  from assms have B: "bit_length n \<le> 53"
    by (simp add: bit_length_le_iff)
  have "(2::real) ^ (53 - bit_length n) * 2 powi (int (bit_length n) - 53) =
        2 powi (int (53 - bit_length n)) * 2 powi (int (bit_length n) - 53)"
    by simp
  also have "\<dots> = 2 powi (int (53 - bit_length n) + (int (bit_length n) - 53))"
    by (simp add: power_int_add)
  also have "\<dots> = 1"
    using B by simp
  finally show ?thesis
    by (simp add: whole_def valof_def mult.assoc)
qed

lemma js_mul_lit_lit:
  assumes "0 < a" "0 < b" "a * b < 2 ^ 53"
  shows "js_mul (lit a) (lit b) = whole (a * b)"
  using assms round64_whole [of "a * b" 0] by (simp add: lit_def)

lemma js_mul_whole_lit:
  assumes "0 < n" "0 < c" "n * c < 2 ^ 53"
  shows "js_mul (whole n) (lit c) = whole (n * c)"
proof -
  have "n \<le> n * c"
    using assms(2) by (cases c) simp_all
  then have "n < 2 ^ 53"
    using assms(3) by (rule le_less_trans)
  then have B: "bit_length n \<le> 53"
    by (simp add: bit_length_le_iff)
  let ?j = "53 - bit_length n"
  have "js_mul (whole n) (lit c) = round64 False (n * 2 ^ ?j * c) (int (bit_length n) - 53)"
    by (simp add: whole_def lit_def)
  also have "n * 2 ^ ?j * c = n * c * 2 ^ ?j"
    by (simp add: mult.assoc mult.commute)
  also have "int (bit_length n) - 53 = - int ?j"
    using B by simp
  also have "round64 False (n * c * 2 ^ ?j) (- int ?j) = whole (n * c)"
    using assms by (intro round64_whole) simp_all
  finally show ?thesis .
qed

text \<open>
  The volume of whole-number dimensions with a product below \<open>2\<^sup>5\<^sup>3\<close> is the exact
  product, in whichever order the dimensions are multiplied.
\<close>

lemma volume_whole:
  assumes "0 < a" "0 < b" "0 < c" "a * b * c < 2 ^ 53"
  shows "js_mul (js_mul (lit a) (lit b)) (lit c) = whole (a * b * c)"
proof -
  have "a * b \<le> a * b * c"
    using assms(3) by (cases c) simp_all
  then have "a * b < 2 ^ 53"
    using assms(4) by (rule le_less_trans)
  with assms show ?thesis
    by (simp add: js_mul_lit_lit js_mul_whole_lit)
qed

section \<open>Validation\<close>

lemma InvalidRange_neq_NotFinite: "InvalidRange \<noteq> NotFinite"
  by (simp add: InvalidRange_def NotFinite_def)

lemma validateInputs_valid: "validateInputs w h l m = Inr () \<longleftrightarrow> valid_input w h l m"
  unfolding validateInputs_def valid_input_def js_le_lit
  using above_iff_not_at_most [of w 0] above_iff_not_at_most [of h 0]
    above_iff_not_at_most [of l 0] above_iff_not_at_most [of m 0]
  by auto

lemma validateInputs_nonpositive:
  "at_most w 0 \<or> at_most h 0 \<or> at_most l 0 \<or> at_most m 0 \<Longrightarrow>
   validateInputs w h l m = Inl InvalidRange"
  using js_le_lit [of _ 0] by (simp add: validateInputs_def)

lemma validateInputs_nonfinite:
  "\<not> at_most w 0 \<Longrightarrow> \<not> at_most h 0 \<Longrightarrow> \<not> at_most l 0 \<Longrightarrow> \<not> at_most m 0 \<Longrightarrow>
   \<not> isFinite w \<or> \<not> isFinite h \<or> \<not> isFinite l \<or> \<not> isFinite m \<Longrightarrow>
   validateInputs w h l m = Inl NotFinite"
  using js_le_lit [of _ 0] by (simp add: validateInputs_def)

lemma sort_pkg_invalid:
  "validateInputs w h l m = Inl err \<Longrightarrow> sort_pkg w h l m = Inl err"
  by (simp add: sort_pkg_def)

lemma sortWithDetails_invalid:
  "validateInputs w h l m = Inl err \<Longrightarrow> sortWithDetails w h l m = Inl err"
  by (simp add: sortWithDetails_def)

lemma sort_pkg_valid:
  "valid_input w h l m \<Longrightarrow>
   sort_pkg w h l m =
     Inr (if isBulky w h l \<and> isHeavy m then REJECTED
          else if isBulky w h l \<or> isHeavy m then SPECIAL else STANDARD)"
  by (simp add: sort_pkg_def Let_def validateInputs_valid [THEN iffD2])

lemma isBulky_iff:
  "isBulky w h l \<longleftrightarrow>
     at_least (js_mul (js_mul w h) l) 1000000 \<or>
     at_least w 150 \<or> at_least h 150 \<or> at_least l 150"
  using js_ge_lit [of _ 1000000] js_ge_lit [of _ 150]
  by (simp add: isBulky_def Let_def)

lemma isHeavy_iff: "isHeavy m \<longleftrightarrow> at_least m 20"
  using js_ge_lit [of m 20] by (simp add: isHeavy_def)

text \<open>Unfolding everything evaluates the functions on concrete doubles.\<close>

lemmas eval_simps =
  sortWithDetails_def sort_pkg_def validateInputs_def valid_input_def isBulky_def
  isHeavy_def lit_def js_ge_def scaled_def round64_def bit_length.simps Let_def
  valof_def InvalidRange_def NotFinite_def is_double_def d99_99_def

text \<open>
  Cases of the repository's test suite with inputs that are not whole numbers, among
  them \<open>99.9\<close>, \<open>0.1\<close>, \<open>149.99\<close>, \<open>150.01\<close>, \<open>19.99\<close> and \<open>20.01\<close>, each written as the double
  that the literal denotes.
\<close>

lemma test_suite_cases:
  "sort_pkg (Finite False 3514918771674317 (- 45)) (Finite False 3514918771674317 (- 45))
     (Finite False 3514918771674317 (- 45))
     (Finite False 2800676018271027 (- 47)) = Inr STANDARD"
  "sort_pkg (Finite False 3602879701896397 (- 55)) (Finite False 3602879701896397 (- 55))
     (Finite False 3602879701896397 (- 55))
     (Finite False 3602879701896397 (- 55)) = Inr STANDARD"
  "sort_pkg (Finite False 5274137376115917 (- 45)) (Finite False 21 (- 1))
     (Finite False 5685794529555251 (- 49))
     (Finite False 2800676018271027 (- 47)) = Inr STANDARD"
  "sort_pkg (Finite False 7036170730324623 (- 46)) (Finite False 7036170730324623 (- 46))
     (Finite False 7036170730324623 (- 46)) (lit 10) = Inr STANDARD"
  "sort_pkg (Finite False 7037578105208177 (- 46)) (lit 100) (lit 100)
     (lit 10) = Inr SPECIAL"
  "sort_pkg (Finite False 659662996200489 (- 42)) (lit 10) (lit 10) (lit 10) = Inr STANDARD"
  "sort_pkg (Finite False 659750957130711 (- 42)) (lit 10) (lit 10) (lit 10) = Inr SPECIAL"
  "sort_pkg (lit 50) (lit 50) (lit 50)
     (Finite False 5626684784446013 (- 48)) = Inr STANDARD"
  "sort_pkg (lit 50) (lit 50) (lit 50) (Finite False 5632314283980227 (- 48)) = Inr SPECIAL"
  "sort_pkg (Finite False 1319413944535107 (- 43)) (Finite False 7054249305128795 (- 47))
     (Finite False 7128961911884547 (- 47))
     (Finite False 5629499252738143 (- 48)) = Inr STANDARD"
  by (simp_all add: eval_simps)

section \<open>The decision table\<close>

text \<open>
  C1. On valid input \<open>sort\<close> returns \<open>REJECTED\<close> exactly when the package is bulky and
  heavy, \<open>SPECIAL\<close> exactly when it is one of the two and not the other, and \<open>STANDARD\<close>
  exactly when it is neither; a bulky and heavy package is never \<open>SPECIAL\<close>.
\<close>

theorem sort_decision_table:
  assumes "valid_input w h l m"
  shows "(sort_pkg w h l m = Inr REJECTED \<longleftrightarrow> isBulky w h l \<and> isHeavy m) \<and>
         (sort_pkg w h l m = Inr SPECIAL \<longleftrightarrow>
            (isBulky w h l \<and> \<not> isHeavy m) \<or> (\<not> isBulky w h l \<and> isHeavy m)) \<and>
         (sort_pkg w h l m = Inr STANDARD \<longleftrightarrow> \<not> isBulky w h l \<and> \<not> isHeavy m) \<and>
         (isBulky w h l \<and> isHeavy m \<longrightarrow> sort_pkg w h l m \<noteq> Inr SPECIAL)"
proof -
  from assms have "validateInputs w h l m = Inr ()"
    by (simp add: validateInputs_valid)
  then show ?thesis
    by (auto simp: sort_pkg_def Let_def)
qed

theorem sort_decision_table_witness:
  "valid_input (lit 200) (lit 100) (lit 100) (lit 25) \<and>
   sort_pkg (lit 200) (lit 100) (lit 100) (lit 25) = Inr REJECTED \<and>
   isBulky (lit 200) (lit 100) (lit 100) \<and> isHeavy (lit 25)"
proof -
  have v: "valid_input (lit 200) (lit 100) (lit 100) (lit 25)"
    by (simp add: eval_simps)
  have b: "isBulky (lit 200) (lit 100) (lit 100)" "isHeavy (lit 25)"
    by (simp_all add: eval_simps)
  from sort_decision_table [OF v] b v show ?thesis
    by simp
qed

section \<open>The two predicates\<close>

text \<open>
  C2. For every triple, \<open>isBulky\<close> holds exactly when the volume, the double that
  \<open>width * height * length\<close> evaluates to, is a number of value at least 1,000,000, or one
  of the three dimensions is a number of value at least 150.  Both thresholds are
  inclusive: a volume of exactly 1,000,000 and a dimension of exactly 150 are bulky, and
  a volume below 1,000,000 with every dimension below 150 is not.
\<close>

theorem isBulky_thresholds:
  "(isBulky w h l \<longleftrightarrow>
      at_least (js_mul (js_mul w h) l) 1000000 \<or>
      at_least w 150 \<or> at_least h 150 \<or> at_least l 150) \<and>
   (equals (js_mul (js_mul w h) l) 1000000 \<longrightarrow> isBulky w h l) \<and>
   (equals w 150 \<or> equals h 150 \<or> equals l 150 \<longrightarrow> isBulky w h l) \<and>
   (below (js_mul (js_mul w h) l) 1000000 \<and> below w 150 \<and> below h 150 \<and> below l 150 \<longrightarrow>
      \<not> isBulky w h l)"
  unfolding isBulky_iff using equals_at_least below_not_at_least by blast

theorem isBulky_thresholds_witness:
  "equals (js_mul (js_mul (lit 100) (lit 100)) (lit 100)) 1000000 \<and>
   isBulky (lit 100) (lit 100) (lit 100) \<and>
   equals (lit 150) 150 \<and> isBulky (lit 150) (lit 10) (lit 10) \<and>
   below (js_mul (js_mul d99_99 d99_99) d99_99) 1000000 \<and> below d99_99 150 \<and>
   \<not> isBulky d99_99 d99_99 d99_99"
proof -
  have a: "equals (js_mul (js_mul (lit 100) (lit 100)) (lit 100)) 1000000"
    by (simp add: eval_simps)
  have b: "equals (lit 150) 150"
    by (simp add: eval_simps)
  have c: "below (js_mul (js_mul d99_99 d99_99) d99_99) 1000000" "below d99_99 150"
    by (simp_all add: eval_simps)
  from a b c isBulky_thresholds [of "lit 100" "lit 100" "lit 100"]
    isBulky_thresholds [of "lit 150" "lit 10" "lit 10"]
    isBulky_thresholds [of d99_99 d99_99 d99_99]
  show ?thesis by blast
qed

text \<open>
  C5. For every mass, \<open>isHeavy\<close> holds exactly when the mass is a number of value at
  least 20: it holds at exactly 20 and fails for every mass below 20.
\<close>

theorem isHeavy_threshold:
  "(isHeavy m \<longleftrightarrow> at_least m 20) \<and>
   (equals m 20 \<longrightarrow> isHeavy m) \<and>
   (below m 20 \<longrightarrow> \<not> isHeavy m)"
  unfolding isHeavy_iff using equals_at_least below_not_at_least by blast

theorem isHeavy_threshold_witness:
  "equals (lit 20) 20 \<and> isHeavy (lit 20) \<and>
   below (Finite False 5629499534213119 (- 48)) 20 \<and>
   \<not> isHeavy (Finite False 5629499534213119 (- 48))"
proof -
  have a: "equals (lit 20) 20"
    by (simp add: eval_simps)
  have b: "below (Finite False 5629499534213119 (- 48)) 20"
    by (simp add: eval_simps)
  from a b isHeavy_threshold [of "lit 20"]
    isHeavy_threshold [of "Finite False 5629499534213119 (- 48)"]
  show ?thesis by blast
qed

section \<open>Errors\<close>

text \<open>
  C3. Validation first compares all four inputs with 0 and raises \<open>InvalidRange\<close> if one
  of them is at most 0, whatever the others are; only when all four pass does it test
  finiteness and raise \<open>NotFinite\<close>.  \<open>NaN <= 0\<close> is false and positive infinity is not
  at most 0, so either of them, beside inputs that pass the first test, gives
  \<open>NotFinite\<close>; negative infinity is at most 0 and gives \<open>InvalidRange\<close>.  Both entry
  points fail with the error of the validation.
\<close>

theorem validation_order:
  "(at_most w 0 \<or> at_most h 0 \<or> at_most l 0 \<or> at_most m 0 \<longrightarrow>
      validateInputs w h l m = Inl InvalidRange \<and>
      sort_pkg w h l m = Inl InvalidRange \<and>
      sortWithDetails w h l m = Inl InvalidRange) \<and>
   (\<not> at_most w 0 \<and> \<not> at_most h 0 \<and> \<not> at_most l 0 \<and> \<not> at_most m 0 \<and>
    (\<not> isFinite w \<or> \<not> isFinite h \<or> \<not> isFinite l \<or> \<not> isFinite m) \<longrightarrow>
      validateInputs w h l m = Inl NotFinite \<and>
      sort_pkg w h l m = Inl NotFinite \<and>
      sortWithDetails w h l m = Inl NotFinite) \<and>
   (\<not> at_most w 0 \<and> \<not> at_most h 0 \<and> \<not> at_most l 0 \<and> \<not> at_most m 0 \<and>
    (NaN \<in> {w, h, l, m} \<or> Infinity False \<in> {w, h, l, m}) \<longrightarrow>
      sort_pkg w h l m = Inl NotFinite \<and> sortWithDetails w h l m = Inl NotFinite) \<and>
   (Infinity True \<in> {w, h, l, m} \<longrightarrow>
      sort_pkg w h l m = Inl InvalidRange \<and> sortWithDetails w h l m = Inl InvalidRange) \<and>
   \<not> js_le NaN (lit 0) \<and> \<not> js_le (Infinity False) (lit 0) \<and> js_le (Infinity True) (lit 0) \<and>
   InvalidRange \<noteq> NotFinite"
proof -
  have 1: "validateInputs w h l m = Inl InvalidRange"
    if "at_most w 0 \<or> at_most h 0 \<or> at_most l 0 \<or> at_most m 0"
    using that by (rule validateInputs_nonpositive)
  have 2: "validateInputs w h l m = Inl NotFinite"
    if "\<not> at_most w 0" "\<not> at_most h 0" "\<not> at_most l 0" "\<not> at_most m 0"
      "\<not> isFinite w \<or> \<not> isFinite h \<or> \<not> isFinite l \<or> \<not> isFinite m"
    using that by (rule validateInputs_nonfinite)
  have 3: "\<not> isFinite w \<or> \<not> isFinite h \<or> \<not> isFinite l \<or> \<not> isFinite m"
    if "NaN \<in> {w, h, l, m} \<or> Infinity False \<in> {w, h, l, m}"
    using that by auto
  have 4: "at_most w 0 \<or> at_most h 0 \<or> at_most l 0 \<or> at_most m 0"
    if "Infinity True \<in> {w, h, l, m}"
    using that by auto
  have 5: "\<not> js_le NaN (lit 0)" "\<not> js_le (Infinity False) (lit 0)"
    "js_le (Infinity True) (lit 0)"
    by (simp_all add: lit_def)
  show ?thesis
    using 1 2 3 4 5 InvalidRange_neq_NotFinite
      sort_pkg_invalid [of w h l m] sortWithDetails_invalid [of w h l m]
    by metis
qed


theorem validation_order_witness:
  "at_most (lit 0) 0 \<and>
   sort_pkg NaN (lit 0) (lit 10) (lit 5) = Inl InvalidRange \<and>
   sortWithDetails NaN (lit 0) (lit 10) (lit 5) = Inl InvalidRange \<and>
   sort_pkg (lit 10) NaN (lit 10) (lit 5) = Inl NotFinite \<and>
   sortWithDetails (lit 10) (Infinity False) (lit 10) (lit 5) = Inl NotFinite \<and>
   sort_pkg (lit 10) (lit 10) (Infinity True) (lit 5) = Inl InvalidRange"
proof -
  have a: "at_most (lit 0) 0" "\<not> at_most (lit 10) 0" "\<not> at_most (lit 5) 0"
    "\<not> at_most NaN 0" "\<not> at_most (Infinity False) 0"
    by (simp_all add: eval_simps)
  from a validation_order [of NaN "lit 0" "lit 10" "lit 5"]
  have 1: "sort_pkg NaN (lit 0) (lit 10) (lit 5) = Inl InvalidRange"
    "sortWithDetails NaN (lit 0) (lit 10) (lit 5) = Inl InvalidRange"
    by blast+
  from a validation_order [of "lit 10" NaN "lit 10" "lit 5"]
  have 2: "sort_pkg (lit 10) NaN (lit 10) (lit 5) = Inl NotFinite"
    by blast
  from a validation_order [of "lit 10" "Infinity False" "lit 10" "lit 5"]
  have 3: "sortWithDetails (lit 10) (Infinity False) (lit 10) (lit 5) = Inl NotFinite"
    by blast
  from validation_order [of "lit 10" "lit 10" "Infinity True" "lit 5"]
  have 4: "sort_pkg (lit 10) (lit 10) (Infinity True) (lit 5) = Inl InvalidRange"
    by blast
  from a(1) 1 2 3 4 show ?thesis by blast
qed

text \<open>
  C4. When one of the four inputs is at most 0, \<open>sort\<close> and \<open>sortWithDetails\<close> each fail
  with \<open>InvalidRange\<close>, and neither returns a result.
\<close>

theorem nonpositive_rejected:
  assumes "at_most w 0 \<or> at_most h 0 \<or> at_most l 0 \<or> at_most m 0"
  shows "sort_pkg w h l m = Inl InvalidRange \<and> sortWithDetails w h l m = Inl InvalidRange \<and>
         (\<forall>t. sort_pkg w h l m \<noteq> Inr t) \<and> (\<forall>r. sortWithDetails w h l m \<noteq> Inr r)"
proof -
  from assms have "validateInputs w h l m = Inl InvalidRange"
    by (rule validateInputs_nonpositive)
  then show ?thesis
    by (simp add: sort_pkg_invalid sortWithDetails_invalid)
qed

theorem nonpositive_rejected_witness:
  "at_most (lit 0) 0 \<and> at_most (Finite True 1 0) 0 \<and>
   sort_pkg (lit 0) (lit 10) (lit 10) (lit 5) = Inl InvalidRange \<and>
   sortWithDetails (lit 10) (lit 10) (lit 10) (Finite True 1 0) = Inl InvalidRange"
proof -
  have a: "at_most (lit 0) 0" "at_most (Finite True 1 0) 0"
    by (simp_all add: eval_simps)
  from a nonpositive_rejected [of "lit 0" "lit 10" "lit 10" "lit 5"]
    nonpositive_rejected [of "lit 10" "lit 10" "lit 10" "Finite True 1 0"]
  show ?thesis by blast
qed

section \<open>The detailed result\<close>

lemma sortWithDetails_valid:
  assumes "valid_input w h l m"
  shows "\<exists>r. sortWithDetails w h l m = Inr r \<and>
           width r = w \<and> height r = h \<and> length_pkg r = l \<and> mass r = m \<and>
           sort_pkg w h l m = Inr (type_pkg r) \<and>
           volume r = js_mul (js_mul w h) l \<and>
           isBulky_flag r = isBulky w h l \<and> isHeavy_flag r = isHeavy m \<and>
           reason r =
             (if type_pkg r = REJECTED then reason_both
              else if type_pkg r = SPECIAL then
                (if isBulky w h l \<and> \<not> isHeavy m then
                   (if js_ge (js_mul (js_mul w h) l) (lit 1000000) \<and>
                       (js_ge w (lit 150) \<or> js_ge h (lit 150) \<or> js_ge l (lit 150))
                    then reason_volume_and_dimension
                    else if js_ge (js_mul (js_mul w h) l) (lit 1000000) then reason_volume
                    else reason_dimension)
                 else if isHeavy m \<and> \<not> isBulky w h l then reason_mass
                 else [])
              else reason_standard)"
  using assms
  by (simp add: sortWithDetails_def sort_pkg_valid Let_def validateInputs_valid [THEN iffD2]
      reason_both_def reason_volume_and_dimension_def reason_volume_def reason_dimension_def
      reason_mass_def reason_standard_def)

text \<open>
  C6. On valid input \<open>sort\<close> returns one of \<open>STANDARD\<close>, \<open>SPECIAL\<close>, \<open>REJECTED\<close>, and
  the \<open>type\<close> field of the record that \<open>sortWithDetails\<close> returns is that value.
\<close>

theorem details_type_agrees:
  assumes "valid_input w h l m"
  shows "\<exists>t r. sort_pkg w h l m = Inr t \<and> (t = STANDARD \<or> t = SPECIAL \<or> t = REJECTED) \<and>
           sortWithDetails w h l m = Inr r \<and> type_pkg r = t"
proof -
  from sortWithDetails_valid [OF assms] obtain r where
    r: "sortWithDetails w h l m = Inr r" "sort_pkg w h l m = Inr (type_pkg r)"
    by blast
  have "type_pkg r = STANDARD \<or> type_pkg r = SPECIAL \<or> type_pkg r = REJECTED"
    by (cases "type_pkg r") simp_all
  with r show ?thesis by blast
qed

theorem details_type_agrees_witness:
  "valid_input (lit 150) (lit 10) (lit 10) (lit 15) \<and>
   (\<exists>r. sort_pkg (lit 150) (lit 10) (lit 10) (lit 15) = Inr SPECIAL \<and>
        sortWithDetails (lit 150) (lit 10) (lit 10) (lit 15) = Inr r \<and>
        type_pkg r = SPECIAL)"
proof -
  have v: "valid_input (lit 150) (lit 10) (lit 10) (lit 15)"
    by (simp add: eval_simps)
  have s: "sort_pkg (lit 150) (lit 10) (lit 10) (lit 15) = Inr SPECIAL"
    by (simp add: eval_simps)
  from details_type_agrees [OF v] s v show ?thesis
    by auto
qed

text \<open>
  C7. On valid input the reason is chosen in this order: a \<open>REJECTED\<close> package is both
  bulky and heavy; else a bulky package that is not heavy cites volume and dimension
  when the volume is at least 1,000,000 and a dimension is at least 150, the volume alone
  when only the volume is, and the dimension otherwise; else a heavy package that is
  not bulky cites the mass; else the package meets the standard criteria.
\<close>

theorem details_reason:
  assumes "valid_input w h l m"
  shows "\<exists>r. sortWithDetails w h l m = Inr r \<and>
           reason r =
             (if type_pkg r = REJECTED then reason_both
              else if isBulky w h l \<and> \<not> isHeavy m then
                (if at_least (js_mul (js_mul w h) l) 1000000 \<and>
                    (at_least w 150 \<or> at_least h 150 \<or> at_least l 150)
                 then reason_volume_and_dimension
                 else if at_least (js_mul (js_mul w h) l) 1000000 then reason_volume
                 else reason_dimension)
              else if isHeavy m \<and> \<not> isBulky w h l then reason_mass
              else reason_standard)"
proof -
  from sortWithDetails_valid [OF assms] obtain r where
    r: "sortWithDetails w h l m = Inr r" "sort_pkg w h l m = Inr (type_pkg r)"
    and rsn: "reason r =
             (if type_pkg r = REJECTED then reason_both
              else if type_pkg r = SPECIAL then
                (if isBulky w h l \<and> \<not> isHeavy m then
                   (if js_ge (js_mul (js_mul w h) l) (lit 1000000) \<and>
                       (js_ge w (lit 150) \<or> js_ge h (lit 150) \<or> js_ge l (lit 150))
                    then reason_volume_and_dimension
                    else if js_ge (js_mul (js_mul w h) l) (lit 1000000) then reason_volume
                    else reason_dimension)
                 else if isHeavy m \<and> \<not> isBulky w h l then reason_mass
                 else [])
              else reason_standard)"
    by blast
  from r(2) have ty: "type_pkg r =
      (if isBulky w h l \<and> isHeavy m then REJECTED
       else if isBulky w h l \<or> isHeavy m then SPECIAL else STANDARD)"
    by (simp add: sort_pkg_valid [OF assms])
  have "reason r =
             (if type_pkg r = REJECTED then reason_both
              else if isBulky w h l \<and> \<not> isHeavy m then
                (if at_least (js_mul (js_mul w h) l) 1000000 \<and>
                    (at_least w 150 \<or> at_least h 150 \<or> at_least l 150)
                 then reason_volume_and_dimension
                 else if at_least (js_mul (js_mul w h) l) 1000000 then reason_volume
                 else reason_dimension)
              else if isHeavy m \<and> \<not> isBulky w h l then reason_mass
              else reason_standard)"
    unfolding rsn using ty js_ge_lit [of _ 1000000] js_ge_lit [of _ 150]
    by (cases "isBulky w h l"; cases "isHeavy m") simp_all
  with r(1) show ?thesis by blast
qed

theorem details_reason_witness:
  "valid_input (lit 100) (lit 100) (lit 100) (lit 15) \<and>
   (\<exists>r. sortWithDetails (lit 100) (lit 100) (lit 100) (lit 15) = Inr r \<and>
        reason r = reason_volume)"
proof -
  have v: "valid_input (lit 100) (lit 100) (lit 100) (lit 15)"
    by (simp add: eval_simps)
  have e: "isBulky (lit 100) (lit 100) (lit 100)" "\<not> isHeavy (lit 15)"
    "at_least (js_mul (js_mul (lit 100) (lit 100)) (lit 100)) 1000000"
    "\<not> at_least (lit 100) 150"
    by (simp_all add: eval_simps)
  have t: "sortWithDetails (lit 100) (lit 100) (lit 100) (lit 15) = Inr r \<Longrightarrow>
           type_pkg r \<noteq> REJECTED" for r
    by (auto simp: eval_simps)
  from details_reason [OF v] obtain r where
    r: "sortWithDetails (lit 100) (lit 100) (lit 100) (lit 15) = Inr r"
    and "reason r =
             (if type_pkg r = REJECTED then reason_both
              else if isBulky (lit 100) (lit 100) (lit 100) \<and> \<not> isHeavy (lit 15) then
                (if at_least (js_mul (js_mul (lit 100) (lit 100)) (lit 100)) 1000000 \<and>
                    (at_least (lit 100) 150 \<or> at_least (lit 100) 150 \<or> at_least (lit 100) 150)
                 then reason_volume_and_dimension
                 else if at_least (js_mul (js_mul (lit 100) (lit 100)) (lit 100)) 1000000
                 then reason_volume
                 else reason_dimension)
              else if isHeavy (lit 15) \<and> \<not> isBulky (lit 100) (lit 100) (lit 100)
              then reason_mass
              else reason_standard)"
    by blast
  with e t [OF r] have "reason r = reason_volume"
    by simp
  with r v show ?thesis by blast
qed

text \<open>
  C8. On valid input the record holds the four inputs unchanged, the volume
  \<open>width * height * length\<close> as the source computes it, and the values of \<open>isBulky\<close> and
  \<open>isHeavy\<close> on the inputs.
\<close>

theorem details_fields:
  assumes "valid_input w h l m"
  shows "\<exists>r. sortWithDetails w h l m = Inr r \<and>
           width r = w \<and> height r = h \<and> length_pkg r = l \<and> mass r = m \<and>
           volume r = js_mul (js_mul w h) l \<and>
           isBulky_flag r = isBulky w h l \<and> isHeavy_flag r = isHeavy m"
  using sortWithDetails_valid [OF assms] by blast

theorem details_fields_witness:
  "valid_input (lit 10) (lit 10) (lit 10) (lit 5) \<and>
   (\<exists>r. sortWithDetails (lit 10) (lit 10) (lit 10) (lit 5) = Inr r \<and>
        width r = lit 10 \<and> mass r = lit 5 \<and> equals (volume r) 1000 \<and>
        \<not> isBulky_flag r \<and> \<not> isHeavy_flag r)"
proof -
  have v: "valid_input (lit 10) (lit 10) (lit 10) (lit 5)"
    by (simp add: eval_simps)
  have e: "equals (js_mul (js_mul (lit 10) (lit 10)) (lit 10)) 1000"
    "\<not> isBulky (lit 10) (lit 10) (lit 10)" "\<not> isHeavy (lit 5)"
    by (simp_all add: eval_simps)
  from details_fields [OF v] e v show ?thesis
    by auto
qed

text \<open>
  C10. On valid input the reason is never the empty string it is initialised to: a
  \<open>SPECIAL\<close> package is bulky and not heavy, or heavy and not bulky, so one of the two
  inner branches assigns it.
\<close>

theorem details_reason_nonempty:
  assumes "valid_input w h l m"
  shows "\<exists>r. sortWithDetails w h l m = Inr r \<and> reason r \<noteq> [] \<and>
           (type_pkg r = SPECIAL \<longrightarrow>
              (isBulky_flag r \<and> \<not> isHeavy_flag r) \<or> (isHeavy_flag r \<and> \<not> isBulky_flag r))"
proof -
  from sortWithDetails_valid [OF assms] obtain r where
    r: "sortWithDetails w h l m = Inr r" "sort_pkg w h l m = Inr (type_pkg r)"
      "isBulky_flag r = isBulky w h l" "isHeavy_flag r = isHeavy m"
    and rsn: "reason r =
             (if type_pkg r = REJECTED then reason_both
              else if type_pkg r = SPECIAL then
                (if isBulky w h l \<and> \<not> isHeavy m then
                   (if js_ge (js_mul (js_mul w h) l) (lit 1000000) \<and>
                       (js_ge w (lit 150) \<or> js_ge h (lit 150) \<or> js_ge l (lit 150))
                    then reason_volume_and_dimension
                    else if js_ge (js_mul (js_mul w h) l) (lit 1000000) then reason_volume
                    else reason_dimension)
                 else if isHeavy m \<and> \<not> isBulky w h l then reason_mass
                 else [])
              else reason_standard)"
    by blast
  from r(2) have ty: "type_pkg r =
      (if isBulky w h l \<and> isHeavy m then REJECTED
       else if isBulky w h l \<or> isHeavy m then SPECIAL else STANDARD)"
    by (simp add: sort_pkg_valid [OF assms])
  have ne: "reason_both \<noteq> []" "reason_volume_and_dimension \<noteq> []" "reason_volume \<noteq> []"
    "reason_dimension \<noteq> []" "reason_mass \<noteq> []" "reason_standard \<noteq> []"
    by (simp_all add: reason_both_def reason_volume_and_dimension_def reason_volume_def
        reason_dimension_def reason_mass_def reason_standard_def)
  have "reason r \<noteq> []"
    unfolding rsn using ty ne
    by (cases "isBulky w h l"; cases "isHeavy m") simp_all
  moreover have "type_pkg r = SPECIAL \<longrightarrow>
      (isBulky_flag r \<and> \<not> isHeavy_flag r) \<or> (isHeavy_flag r \<and> \<not> isBulky_flag r)"
    unfolding r(3,4) using ty
    by (cases "isBulky w h l"; cases "isHeavy m") simp_all
  ultimately show ?thesis using r(1) by blast
qed


theorem details_reason_nonempty_witness:
  "valid_input (lit 50) (lit 50) (lit 50) (lit 20) \<and>
   (\<exists>r. sortWithDetails (lit 50) (lit 50) (lit 50) (lit 20) = Inr r \<and> reason r \<noteq> [])"
proof -
  have v: "valid_input (lit 50) (lit 50) (lit 50) (lit 20)"
    by (simp add: eval_simps)
  from details_reason_nonempty [OF v] v show ?thesis
    by blast
qed

section \<open>Reordering the dimensions\<close>

lemma js_mul_commute: "js_mul a b = js_mul b a"
proof (cases a; cases b)
  fix s m e t n f
  assume ab: "a = Finite s m e" "b = Finite t n f"
  have "(s \<noteq> t) = (t \<noteq> s)" by blast
  then have "round64 (s \<noteq> t) (m * n) (e + f) = round64 (t \<noteq> s) (n * m) (f + e)"
    by (simp only: mult.commute add.commute)
  then show ?thesis
    unfolding ab by (simp only: js_mul.simps)
qed auto

lemma validateInputs_rearranged:
  "rearranged (a, b, c) (w, h, l) \<Longrightarrow> validateInputs a b c m = validateInputs w h l m"
  by (auto simp: rearranged_def validateInputs_def)

lemma isBulky_swap: "isBulky w h l = isBulky h w l"
  by (auto simp: isBulky_def Let_def js_mul_commute [of w h])

lemma isBulky_rearranged:
  assumes "rearranged (a, b, c) (w, h, l)"
    and "at_least w 150 \<or> at_least h 150 \<or> at_least l 150 \<or>
         (at_least (js_mul (js_mul a b) c) 1000000 \<longleftrightarrow>
          at_least (js_mul (js_mul w h) l) 1000000)"
  shows "isBulky a b c = isBulky w h l"
  using assms unfolding isBulky_iff rearranged_def by auto

lemma sort_pkg_cong:
  "validateInputs a b c m = validateInputs w h l m \<Longrightarrow> isBulky a b c = isBulky w h l \<Longrightarrow>
   sort_pkg a b c m = sort_pkg w h l m"
  by (simp add: sort_pkg_def split: sum.split)

lemma volume_whole_rearranged:
  assumes "0 < a" "0 < b" "0 < c" "a * b * c < 2 ^ 53"
    and "rearranged (x, y, z) (lit a, lit b, lit c)"
  shows "js_mul (js_mul x y) z = js_mul (js_mul (lit a) (lit b)) (lit c)"
proof -
  have v: "js_mul (js_mul (lit p) (lit q)) (lit r) = whole (a * b * c)"
    if "0 < p" "0 < q" "0 < r" "p * q * r = a * b * c" for p q r
    using volume_whole [of p q r] that assms(4) by simp
  have p: "b * a * c = a * b * c" "c * b * a = a * b * c" "a * c * b = a * b * c"
    "b * c * a = a * b * c" "c * a * b = a * b * c"
    by (simp_all add: mult.assoc mult.left_commute mult.commute)
  from assms(5) consider "(x, y, z) = (lit a, lit b, lit c)" | "(x, y, z) = (lit b, lit a, lit c)"
    | "(x, y, z) = (lit c, lit b, lit a)" | "(x, y, z) = (lit a, lit c, lit b)"
    | "(x, y, z) = (lit b, lit c, lit a)" | "(x, y, z) = (lit c, lit a, lit b)"
    unfolding rearranged_def by auto
  then show ?thesis
  proof cases
    case 1 then show ?thesis by simp
  next
    case 2 then show ?thesis using v [of b a c] v [of a b c] assms(1-3) p by simp
  next
    case 3 then show ?thesis using v [of c b a] v [of a b c] assms(1-3) p by simp
  next
    case 4 then show ?thesis using v [of a c b] v [of a b c] assms(1-3) p by simp
  next
    case 5 then show ?thesis using v [of b c a] v [of a b c] assms(1-3) p by simp
  next
    case 6 then show ?thesis using v [of c a b] v [of a b c] assms(1-3) p by simp
  qed
qed

text \<open>
  C9, as amended.  \<open>sort\<close> and \<open>isBulky\<close> do not change when width and height are
  exchanged.  Under every reordering of the three dimensions the outcome of the
  validation is the same, and so are \<open>sort\<close> and \<open>isBulky\<close> whenever a dimension is at
  least 150 or the volumes computed in the two orders lie on the same side of
  1,000,000; they do whenever the dimensions are positive whole numbers with a product
  below \<open>2\<^sup>5\<^sup>3\<close>, where no product is rounded.
\<close>

theorem sort_rearranged:
  "sort_pkg w h l m = sort_pkg h w l m \<and> isBulky w h l = isBulky h w l \<and>
   (rearranged (a, b, c) (w, h, l) \<longrightarrow>
      validateInputs a b c m = validateInputs w h l m) \<and>
   (rearranged (a, b, c) (w, h, l) \<and>
    (at_least w 150 \<or> at_least h 150 \<or> at_least l 150 \<or>
     (at_least (js_mul (js_mul a b) c) 1000000 \<longleftrightarrow>
      at_least (js_mul (js_mul w h) l) 1000000)) \<longrightarrow>
      sort_pkg a b c m = sort_pkg w h l m \<and> isBulky a b c = isBulky w h l) \<and>
   (0 < i \<and> 0 < j \<and> 0 < k \<and> i * j * k < 2 ^ 53 \<and>
    rearranged (x, y, z) (lit i, lit j, lit k) \<longrightarrow>
      sort_pkg x y z m = sort_pkg (lit i) (lit j) (lit k) m \<and>
      isBulky x y z = isBulky (lit i) (lit j) (lit k))"
proof -
  have "rearranged (h, w, l) (w, h, l)"
    by (simp add: rearranged_def)
  then have swap: "sort_pkg h w l m = sort_pkg w h l m"
    by (intro sort_pkg_cong validateInputs_rearranged) (simp_all add: isBulky_swap [of h w l])
  have general: "sort_pkg a b c m = sort_pkg w h l m \<and> isBulky a b c = isBulky w h l"
    if "rearranged (a, b, c) (w, h, l)"
      and "at_least w 150 \<or> at_least h 150 \<or> at_least l 150 \<or>
           (at_least (js_mul (js_mul a b) c) 1000000 \<longleftrightarrow>
            at_least (js_mul (js_mul w h) l) 1000000)"
    for a b c w h l
    using that validateInputs_rearranged [of a b c w h l m]
      isBulky_rearranged [of a b c w h l] sort_pkg_cong [of a b c m w h l]
    by blast
  have whole: "sort_pkg x y z m = sort_pkg (lit i) (lit j) (lit k) m \<and>
      isBulky x y z = isBulky (lit i) (lit j) (lit k)"
    if "0 < i" "0 < j" "0 < k" "i * j * k < 2 ^ 53"
      "rearranged (x, y, z) (lit i, lit j, lit k)"
    using volume_whole_rearranged [OF that] that(5) by (intro general) simp_all
  from swap isBulky_swap [of w h l] validateInputs_rearranged [of a b c w h l m]
    general [of a b c w h l] whole
  show ?thesis by metis
qed

theorem sort_rearranged_witness:
  "rearranged (lit 10, lit 200, lit 30) (lit 30, lit 10, lit 200) \<and> at_least (lit 200) 150 \<and>
   sort_pkg (lit 10) (lit 200) (lit 30) (lit 25) = sort_pkg (lit 30) (lit 10) (lit 200) (lit 25) \<and>
   sort_pkg (lit 30) (lit 10) (lit 200) (lit 25) = Inr REJECTED \<and>
   rearranged (lit 100, lit 50, lit 200) (lit 200, lit 50, lit 100) \<and>
   (200 :: nat) * 50 * 100 < 2 ^ 53 \<and>
   sort_pkg (lit 100) (lit 50) (lit 200) (lit 15) = sort_pkg (lit 200) (lit 50) (lit 100) (lit 15)"
proof -
  have a: "rearranged (lit 10, lit 200, lit 30) (lit 30, lit 10, lit 200)"
    "rearranged (lit 100, lit 50, lit 200) (lit 200, lit 50, lit 100)"
    by (simp_all add: rearranged_def)
  have b: "at_least (lit 200) 150"
    by (simp add: eval_simps)
  have c: "sort_pkg (lit 30) (lit 10) (lit 200) (lit 25) = Inr REJECTED"
    by (simp add: eval_simps)
  have d: "(0 :: nat) < 200" "(0 :: nat) < 50" "(0 :: nat) < 100"
    "(200 :: nat) * 50 * 100 < 2 ^ 53"
    by simp_all
  from a b c d
    sort_rearranged [of "lit 30" "lit 10" "lit 200" "lit 25" "lit 10" "lit 200" "lit 30"]
    sort_rearranged [of _ _ _ "lit 15" _ _ _ 200 50 100 "lit 100" "lit 50" "lit 200"]
  show ?thesis by blast
qed

text \<open>
  The product of doubles is rounded after each multiplication, so the volume depends on
  which two dimensions are multiplied first.  For 116, 71.24536905101168 and 121 the
  volume is exactly 1,000,000 in this order and the next double below 1,000,000 with the
  first and the last exchanged: the same package is \<open>SPECIAL\<close> one way and \<open>STANDARD\<close>
  the other.
\<close>

theorem sort_permutation_counterexample:
  "is_double (Finite False 5013447148593901 (- 46)) \<and>
   valid_input (lit 116) (Finite False 5013447148593901 (- 46)) (lit 121) (lit 10) \<and>
   sort_pkg (lit 116) (Finite False 5013447148593901 (- 46)) (lit 121) (lit 10) = Inr SPECIAL \<and>
   sort_pkg (lit 121) (Finite False 5013447148593901 (- 46)) (lit 116) (lit 10) = Inr STANDARD \<and>
   isBulky (lit 116) (Finite False 5013447148593901 (- 46)) (lit 121) \<and>
   \<not> isBulky (lit 121) (Finite False 5013447148593901 (- 46)) (lit 116)"
  by (simp add: eval_simps)

end
